theory Spec2Isabelle
  imports Complex_Main
begin

section \<open>Python values\<close>

text \<open>
  An exception is its class and its message \<open>str(e)\<close>. \<open>ProviderException\<close> stands for
  any \<open>Exception\<close> instance raised inside an SDK call. A message is a list of 8-bit
  characters.
\<close>

datatype exn =
    ValueError string
  | ProviderException string
  | ZeroDivisionError
  | OverflowError

fun str :: "exn \<Rightarrow> string" where
  "str (ValueError m) = m"
| "str (ProviderException m) = m"
| "str ZeroDivisionError = ''division by zero''"
| "str OverflowError = ''integer division result too large for a float''"

text \<open>
  A timezone-aware \<open>datetime\<close> is an instant, modelled as the number of microseconds
  since the epoch; a \<open>timedelta\<close> is a signed number of microseconds. Subtracting two
  aware datetimes and comparing timedeltas are exact integer operations in Python.
\<close>

type_synonym datetime = int
type_synonym timedelta = int

text \<open>Python's two-argument \<open>max(a, b)\<close>: \<open>b\<close> replaces \<open>a\<close> only when \<open>b > a\<close>.\<close>

definition py_max2 :: "int \<Rightarrow> int \<Rightarrow> int" where
  "py_max2 a b = (if b > a then b else a)"

subsection \<open>Floats\<close>

text \<open>
  A Python \<open>float\<close> is an IEEE 754 binary64 number. \<open>Finite m s\<close> is the number
  \<open>m * 2 ^ s\<close> (\<open>float_value\<close> reads it as a rational); the two infinities are
  values of their own. No operation used here produces a NaN, and \<open>-0.0 == 0.0\<close>.
  The three operations of \<open>round((used / total) * 100, 1)\<close> are modelled one by one,
  each with the rounding that CPython performs.

  \<open>nearest_binary64 n d\<close> rounds the rational \<open>n / d\<close> (with \<open>0 < d\<close>) to the nearest
  number with a 53-bit significand and exponent at least \<open>-1074\<close>, ties to even; the
  caller checks the upper end of the range.
\<close>

datatype py_float = Finite int int | PosInf | NegInf


text \<open>\<open>int.bit_length()\<close> of a non-negative integer.\<close>

fun bit_length :: "nat \<Rightarrow> nat" where
  "bit_length n = (if n = 0 then 0 else Suc (bit_length (n div 2)))"

declare bit_length.simps [simp del]

text \<open>The integer nearest to \<open>n / d\<close> for \<open>0 < d\<close>, ties to the even one.\<close>

definition round_half_even :: "int \<Rightarrow> int \<Rightarrow> int" where
  "round_half_even n d =
     (let q = n div d; r = n mod d
      in if 2 * r < d then q else if d < 2 * r then q + 1 else if even q then q else q + 1)"

text \<open>The integer \<open>e\<close> with \<open>2 ^ e \<le> n / d < 2 ^ (e + 1)\<close>, for \<open>0 < n\<close> and \<open>0 < d\<close>.\<close>

definition floor_log2 :: "int \<Rightarrow> int \<Rightarrow> int" where
  "floor_log2 n d =
     (let e0 = int (bit_length (nat n)) - int (bit_length (nat d))
      in if d * 2 ^ nat e0 \<le> n * 2 ^ nat (- e0) then e0 else e0 - 1)"

definition nearest_binary64 :: "int \<Rightarrow> int \<Rightarrow> int \<times> int" where
  "nearest_binary64 n d =
     (if n = 0 then (0, 0)
      else
        let e = floor_log2 \<bar>n\<bar> d;
            s = max (e - 52) (- 1074);
            m = round_half_even (n * 2 ^ nat (- s)) (d * 2 ^ nat s)
        in (m, s))"

definition too_large :: "int \<Rightarrow> int \<Rightarrow> bool" where
  "too_large m s = (0 \<le> s \<and> 2 ^ 1024 \<le> \<bar>m\<bar> * 2 ^ nat s)"

text \<open>
  \<open>a / b\<close> on two ints: the correctly rounded quotient; \<open>ZeroDivisionError\<close> for a
  zero divisor, \<open>OverflowError\<close> when the rounded quotient is beyond the largest float.
\<close>

definition truediv :: "int \<Rightarrow> int \<Rightarrow> exn + py_float" where
  "truediv a b =
     (if b = 0 then Inl ZeroDivisionError
      else
        case nearest_binary64 (if b < 0 then - a else a) \<bar>b\<bar> of
          (m, s) \<Rightarrow> if too_large m s then Inl OverflowError else Inr (Finite m s))"

text \<open>\<open>x * 100\<close> on a float: the correctly rounded product, an infinity on overflow.\<close>

definition times_100 :: "py_float \<Rightarrow> py_float" where
  "times_100 x =
     (case x of
        Finite m s \<Rightarrow>
          (case nearest_binary64 (m * 100 * 2 ^ nat s) (2 ^ nat (- s)) of
             (m', s') \<Rightarrow>
               if too_large m' s' then (if m' < 0 then NegInf else PosInf) else Finite m' s')
      | PosInf \<Rightarrow> PosInf
      | NegInf \<Rightarrow> NegInf)"

text \<open>
  \<open>round(x, 1)\<close> on a float: an infinity rounds to itself; a finite \<open>x\<close> is rounded to
  a whole number of tenths (ties to even, on the exact value of \<open>x\<close>), and the float
  nearest to that decimal is returned.
\<close>

definition py_round1 :: "py_float \<Rightarrow> exn + py_float" where
  "py_round1 x =
     (case x of
        Finite m s \<Rightarrow>
          (let tenths = round_half_even (m * 10 * 2 ^ nat s) (2 ^ nat (- s))
           in case nearest_binary64 tenths 10 of
                (m', s') \<Rightarrow> if too_large m' s' then Inl OverflowError else Inr (Finite m' s'))
      | PosInf \<Rightarrow> Inr PosInf
      | NegInf \<Rightarrow> Inr NegInf)"

section \<open>Data model (schemas.py)\<close>

text \<open>
  \<open>SandboxState = Literal["running", "paused"]\<close>: the field holds a string.
\<close>

record SandboxInfo =
  sandbox_id :: string
  template_id :: string
  name :: "string option"
  metadata :: "(string \<times> string) list"
  state :: string
  started_at :: datetime
  end_at :: datetime
  cpu_count :: int
  memory_mb :: int

text \<open>
  The computed fields read the clock (\<open>datetime.now(tz)\<close>); the reading is the
  argument \<open>now\<close>.
\<close>

definition uptime :: "SandboxInfo \<Rightarrow> datetime \<Rightarrow> timedelta" where
  "uptime self now = now - started_at self"

definition time_remaining :: "SandboxInfo \<Rightarrow> datetime \<Rightarrow> timedelta" where
  "time_remaining self now =
     (let remaining = end_at self - now in py_max2 remaining 0)"

record SandboxMetrics =
  cpu_count :: int
  cpu_pct :: py_float
  mem_total_mb :: int
  mem_used_mb :: int
  disk_total_mb :: int
  disk_used_mb :: int
  timestamp :: datetime



record CommandResult =
  stdout :: string
  stderr :: string
  exit_code :: int

record CodeResult =
  stdout :: string
  stderr :: string
  error :: "string option"
  results :: "string option list"

record Summary =
  running_count :: int
  paused_count :: int
  total_count :: int
  total_cpu :: int
  total_memory_mb :: int
  oldest_sandbox_id :: "string option"
  oldest_uptime :: "timedelta option"
  newest_sandbox_id :: "string option"
  newest_uptime :: "timedelta option"

section \<open>The remote provider (external SDK)\<close>

text \<open>
  The e2b SDK is not part of the repository. Its answers are an input of the model: a
  record of response functions, together with the log of the calls the facade has made
  so far. The facade never changes the response functions, only the log grows.
\<close>

text \<open>
  Modelled from the spec: the SDK's enum \<open>SandboxState\<close>, which is imported by
  \<open>async_client.py\<close> and not declared in the repository (\<open>state\<close>: enum
  running | paused). The source uses its members \<open>RUNNING\<close> and \<open>PAUSED\<close> and
  reads \<open>.value\<close>.
\<close>

datatype e2b_state = RUNNING | PAUSED

fun state_value :: "e2b_state \<Rightarrow> string" where
  "state_value RUNNING = ''running''"
| "state_value PAUSED = ''paused''"

record raw_sandbox =
  raw_sandbox_id :: string
  raw_template_id :: string
  raw_name :: "string option"
  raw_metadata :: "(string \<times> string) list"
  raw_state :: e2b_state
  raw_started_at :: datetime
  raw_end_at :: datetime
  raw_cpu_count :: int
  raw_memory_mb :: int

record SandboxQuery =
  query_state :: "e2b_state list option"
  query_metadata :: "(string \<times> string) list option"

record raw_metrics =
  m_cpu_count :: int
  m_cpu_used_pct :: py_float
  m_mem_total :: int
  m_mem_used :: int
  m_disk_total :: int
  m_disk_used :: int
  m_timestamp :: datetime

record raw_command =
  c_stdout :: "string option"
  c_stderr :: "string option"
  c_exit_code :: int

text \<open>
  An execution of the code interpreter: its logs (absent, or the lines of the two
  streams), its error (absent, or the error's \<open>str\<close>), and its results, each with a
  \<open>text\<close> attribute (which may be \<open>None\<close>) or without one (then its \<open>str\<close>).
\<close>

datatype raw_result = WithText "string option" | WithoutText string

record raw_execution =
  x_logs :: "(string list \<times> string list) option"
  x_error :: "string option"
  x_results :: "raw_result list"

datatype call =
    NextItems "SandboxQuery option" nat
  | Connect string
  | GetMetrics string "datetime option" "datetime option"
  | RunCommand string string int
  | RunCode string string string int
  | Kill string

record provider =
  list_page :: "SandboxQuery option \<Rightarrow> nat \<Rightarrow> raw_sandbox list \<times> bool"
  connect_response :: "string \<Rightarrow> exn option"
  metrics_response :: "string \<Rightarrow> datetime option \<Rightarrow> datetime option \<Rightarrow> exn + raw_metrics list"
  command_response :: "string \<Rightarrow> string \<Rightarrow> int \<Rightarrow> exn + raw_command"
  code_response :: "string \<Rightarrow> string \<Rightarrow> string \<Rightarrow> int \<Rightarrow> exn + raw_execution"
  kill_response :: "string \<Rightarrow> exn option"
  calls :: "call list"

definition log_call :: "call \<Rightarrow> provider \<Rightarrow> provider" where
  "log_call c w = w\<lparr>calls := calls w @ [c]\<rparr>"

text \<open>
  The SDK's paginator: \<open>has_next\<close> is true before the first request; \<open>next_items\<close>
  requests the next page and takes \<open>has_next\<close> from the page's has-more flag.
\<close>

record paginator =
  pg_query :: "SandboxQuery option"
  pg_fetched :: nat
  has_next :: bool

definition new_paginator :: "SandboxQuery option \<Rightarrow> paginator" where
  "new_paginator q = \<lparr>pg_query = q, pg_fetched = 0, has_next = True\<rparr>"

definition next_items :: "provider \<Rightarrow> paginator \<Rightarrow> raw_sandbox list \<times> paginator \<times> provider" where
  "next_items w pg =
     (case list_page w (pg_query pg) (pg_fetched pg) of
        (items, flag) \<Rightarrow>
          (items,
           pg\<lparr>pg_fetched := Suc (pg_fetched pg), has_next := flag\<rparr>,
           log_call (NextItems (pg_query pg) (pg_fetched pg)) w))"

section \<open>The facade (async\_client.py)\<close>

record inspector =
  api_key :: string
  default_timeout :: int

subsection \<open>list\_sandboxes\<close>

definition to_info :: "raw_sandbox \<Rightarrow> SandboxInfo" where
  "to_info sbx =
     \<lparr>sandbox_id = raw_sandbox_id sbx,
      template_id = raw_template_id sbx,
      name = raw_name sbx,
      metadata = raw_metadata sbx,
      state = state_value (raw_state sbx),
      started_at = raw_started_at sbx,
      end_at = raw_end_at sbx,
      SandboxInfo.cpu_count = raw_cpu_count sbx,
      memory_mb = raw_memory_mb sbx\<rparr>"

text \<open>Truthiness of \<open>str | None\<close> and \<open>dict | None\<close>: \<open>None\<close> and the empty value are false.\<close>

definition truthy :: "'a list option \<Rightarrow> bool" where
  "truthy v = (case v of None \<Rightarrow> False | Some xs \<Rightarrow> xs \<noteq> [])"

definition make_query ::
  "string option \<Rightarrow> (string \<times> string) list option \<Rightarrow> SandboxQuery option" where
  "make_query st md =
     (if truthy st \<or> truthy md then
        Some \<lparr>query_state =
                 (if truthy st
                  then Some [if st = Some ''running'' then RUNNING else PAUSED]
                  else None),
              query_metadata = md\<rparr>
      else None)"

text \<open>
  The loop \<open>while items: ... if paginator.has_next: items = await paginator.next_items()
  else: break\<close>. The loop may run for ever on a provider that never stops sending
  non-empty pages with the has-more flag set; not returning is the value \<open>None\<close>.
\<close>

partial_function (option) fetch_loop ::
  "provider \<Rightarrow> paginator \<Rightarrow> raw_sandbox list \<Rightarrow> SandboxInfo list
     \<Rightarrow> (SandboxInfo list \<times> provider) option" where
  "fetch_loop w pg items sandboxes =
     (if items = [] then Some (sandboxes, w)
      else
        let sandboxes' = sandboxes @ map to_info items in
        if has_next pg then
          (case next_items w pg of
             (items', pg', w') \<Rightarrow> fetch_loop w' pg' items' sandboxes')
        else Some (sandboxes', w))"

definition list_sandboxes ::
  "provider \<Rightarrow> string option \<Rightarrow> (string \<times> string) list option
     \<Rightarrow> (SandboxInfo list \<times> provider) option" where
  "list_sandboxes w st md =
     (let paginator = new_paginator (make_query st md) in
      case next_items w paginator of
        (items, paginator', w') \<Rightarrow> fetch_loop w' paginator' items [])"

subsection \<open>metrics\<close>

datatype metrics_result = Single SandboxMetrics | Many "SandboxMetrics list"

definition to_metrics :: "raw_metrics \<Rightarrow> SandboxMetrics" where
  "to_metrics m =
     \<lparr>cpu_count = m_cpu_count m,
      cpu_pct = m_cpu_used_pct m,
      mem_total_mb = m_mem_total m div (1024 * 1024),
      mem_used_mb = m_mem_used m div (1024 * 1024),
      disk_total_mb = m_disk_total m div (1024 * 1024),
      disk_used_mb = m_disk_used m div (1024 * 1024),
      timestamp = m_timestamp m\<rparr>"

definition metrics ::
  "provider \<Rightarrow> string \<Rightarrow> datetime option \<Rightarrow> datetime option
     \<Rightarrow> (exn + metrics_result) \<times> provider" where
  "metrics w sid start stop =
     (let w1 = log_call (Connect sid) w in
      case connect_response w sid of
        Some e \<Rightarrow> (Inl e, w1)
      | None \<Rightarrow>
          let w2 = log_call (GetMetrics sid start stop) w1 in
          case metrics_response w sid start stop of
            Inl e \<Rightarrow> (Inl e, w2)
          | Inr raw_metrics \<Rightarrow>
              let results = map to_metrics raw_metrics in
              if start = None \<and> stop = None \<and> length results = 1
              then (Inr (Single (results ! 0)), w2)
              else (Inr (Many results), w2))"

subsection \<open>exec and python\<close>

text \<open>\<open>timeout or self.default_timeout\<close>: \<open>None\<close> and \<open>0\<close> are false.\<close>

definition timeout_or :: "int option \<Rightarrow> int \<Rightarrow> int" where
  "timeout_or timeout dflt =
     (case timeout of None \<Rightarrow> dflt | Some t \<Rightarrow> if t \<noteq> 0 then t else dflt)"

text \<open>\<open>s or ""\<close> on \<open>str | None\<close>.\<close>

definition or_empty :: "string option \<Rightarrow> string" where
  "or_empty s = (case s of None \<Rightarrow> [] | Some v \<Rightarrow> if v \<noteq> [] then v else [])"

definition exec ::
  "inspector \<Rightarrow> provider \<Rightarrow> string \<Rightarrow> string \<Rightarrow> int option
     \<Rightarrow> (exn + CommandResult) \<times> provider" where
  "exec self w sid command timeout =
     (let w1 = log_call (Connect sid) w in
      case connect_response w sid of
        Some e \<Rightarrow> (Inl e, w1)
      | None \<Rightarrow>
          let t = timeout_or timeout (default_timeout self);
              w2 = log_call (RunCommand sid command t) w1 in
          case command_response w sid command t of
            Inl e \<Rightarrow> (Inl e, w2)
          | Inr result \<Rightarrow>
              (Inr \<lparr>CommandResult.stdout = or_empty (c_stdout result),
                    CommandResult.stderr = or_empty (c_stderr result),
                    exit_code = c_exit_code result\<rparr>, w2))"

definition result_text :: "raw_result \<Rightarrow> string option" where
  "result_text r = (case r of WithText t \<Rightarrow> t | WithoutText s \<Rightarrow> Some s)"

definition python ::
  "inspector \<Rightarrow> provider \<Rightarrow> string \<Rightarrow> string \<Rightarrow> int option
     \<Rightarrow> (exn + CodeResult) \<times> provider" where
  "python self w sid code timeout =
     (let w1 = log_call (Connect sid) w in
      case connect_response w sid of
        Some e \<Rightarrow> (Inl e, w1)
      | None \<Rightarrow>
          let t = timeout_or timeout (default_timeout self);
              w2 = log_call (RunCode sid code ''python'' t) w1 in
          case code_response w sid code ''python'' t of
            Inl e \<Rightarrow> (Inl e, w2)
          | Inr execution \<Rightarrow>
              (Inr \<lparr>CodeResult.stdout =
                      (case x_logs execution of
                         None \<Rightarrow> []
                       | Some (out, err) \<Rightarrow> if out \<noteq> [] then concat out else []),
                    CodeResult.stderr =
                      (case x_logs execution of
                         None \<Rightarrow> []
                       | Some (out, err) \<Rightarrow> if err \<noteq> [] then concat err else []),
                    error = x_error execution,
                    results =
                      (if x_results execution \<noteq> []
                       then map result_text (x_results execution) else [])\<rparr>, w2))"

subsection \<open>kill and kill\_all\<close>

text \<open>\<open>str.lower()\<close> on the ASCII letters, and the substring test \<open>needle in s\<close>.\<close>

definition lower_char :: "char \<Rightarrow> char" where
  "lower_char c =
     (let n = (of_char c :: nat)
      in if 65 \<le> n \<and> n \<le> 90 then char_of (n + 32) else c)"

definition lower :: "string \<Rightarrow> string" where
  "lower s = map lower_char s"

fun starts_with :: "string \<Rightarrow> string \<Rightarrow> bool" where
  "starts_with [] s = True"
| "starts_with (n # ns) [] = False"
| "starts_with (n # ns) (c # cs) = (n = c \<and> starts_with ns cs)"

fun contains :: "string \<Rightarrow> string \<Rightarrow> bool" where
  "contains needle [] = (needle = [])"
| "contains needle (c # cs) = (starts_with needle (c # cs) \<or> contains needle cs)"

definition is_not_found :: "exn \<Rightarrow> bool" where
  "is_not_found e =
     (let error_str = lower (str e)
      in contains ''not found'' error_str \<or> contains ''404'' error_str)"

definition kill :: "provider \<Rightarrow> string \<Rightarrow> (exn + bool) \<times> provider" where
  "kill w sid =
     (let w' = log_call (Kill sid) w in
      case kill_response w sid of
        None \<Rightarrow> (Inr True, w')
      | Some e \<Rightarrow> if is_not_found e then (Inr False, w') else (Inl e, w'))"

text \<open>The loop \<open>for sbx in sandboxes: if await self.kill(sbx.sandbox_id): count += 1\<close>.\<close>

fun kill_each :: "provider \<Rightarrow> SandboxInfo list \<Rightarrow> int \<Rightarrow> (exn + int) \<times> provider" where
  "kill_each w [] count = (Inr count, w)"
| "kill_each w (sbx # rest) count =
     (case kill w (sandbox_id sbx) of
        (Inl e, w') \<Rightarrow> (Inl e, w')
      | (Inr killed, w') \<Rightarrow> kill_each w' rest (if killed then count + 1 else count))"

definition kill_all :: "provider \<Rightarrow> bool \<Rightarrow> ((exn + int) \<times> provider) option" where
  "kill_all w confirm =
     (if \<not> confirm then
        Some (Inl (ValueError ''Must pass confirm=True to kill all sandboxes''), w)
      else
        case list_sandboxes w None None of
          None \<Rightarrow> None
        | Some (sandboxes, w') \<Rightarrow> Some (kill_each w' sandboxes 0))"

subsection \<open>summary\<close>

text \<open>
  Python's \<open>min(xs, key=f)\<close> and \<open>max(xs, key=f)\<close> keep the first element and replace
  it only by a later one whose key is strictly smaller (strictly larger).
\<close>

fun min_from :: "('a \<Rightarrow> int) \<Rightarrow> 'a \<Rightarrow> 'a list \<Rightarrow> 'a" where
  "min_from key best [] = best"
| "min_from key best (x # xs) = min_from key (if key x < key best then x else best) xs"

fun max_from :: "('a \<Rightarrow> int) \<Rightarrow> 'a \<Rightarrow> 'a list \<Rightarrow> 'a" where
  "max_from key best [] = best"
| "max_from key best (x # xs) = max_from key (if key x > key best then x else best) xs"

definition py_min :: "('a \<Rightarrow> int) \<Rightarrow> 'a list \<Rightarrow> 'a option" where
  "py_min key xs = (case xs of [] \<Rightarrow> None | x # rest \<Rightarrow> Some (min_from key x rest))"

definition py_max :: "('a \<Rightarrow> int) \<Rightarrow> 'a list \<Rightarrow> 'a option" where
  "py_max key xs = (case xs of [] \<Rightarrow> None | x # rest \<Rightarrow> Some (max_from key x rest))"

text \<open>
  \<open>oldest.uptime\<close> and \<open>newest.uptime\<close> read the clock one after the other: \<open>now1\<close>
  and \<open>now2\<close> are the two readings.
\<close>

definition summarize :: "SandboxInfo list \<Rightarrow> datetime \<Rightarrow> datetime \<Rightarrow> Summary" where
  "summarize sandboxes now1 now2 =
     (let running = filter (\<lambda>s. state s = ''running'') sandboxes;
          paused = filter (\<lambda>s. state s = ''paused'') sandboxes;
          total_cpu = sum_list (map SandboxInfo.cpu_count sandboxes);
          total_memory = sum_list (map memory_mb sandboxes);
          oldest = (if sandboxes \<noteq> [] then py_min started_at sandboxes else None);
          newest = (if sandboxes \<noteq> [] then py_max started_at sandboxes else None)
      in \<lparr>running_count = int (length running),
          paused_count = int (length paused),
          total_count = int (length sandboxes),
          total_cpu = total_cpu,
          total_memory_mb = total_memory,
          oldest_sandbox_id = map_option sandbox_id oldest,
          oldest_uptime = map_option (\<lambda>s. uptime s now1) oldest,
          newest_sandbox_id = map_option sandbox_id newest,
          newest_uptime = map_option (\<lambda>s. uptime s now2) newest\<rparr>)"

definition summary ::
  "provider \<Rightarrow> datetime \<Rightarrow> datetime \<Rightarrow> (Summary \<times> provider) option" where
  "summary w now1 now2 =
     (case list_sandboxes w None None of
        None \<Rightarrow> None
      | Some (sandboxes, w') \<Rightarrow> Some (summarize sandboxes now1 now2, w'))"

section \<open>Notions used in the statements\<close>

text \<open>
  A page ends the listing loop when it has no items or when its has-more flag is
  false; \<open>last_page w q n\<close> says that page \<open>n\<close> is the first such page.
\<close>

definition page_ends :: "provider \<Rightarrow> SandboxQuery option \<Rightarrow> nat \<Rightarrow> bool" where
  "page_ends w q n = (fst (list_page w q n) = [] \<or> \<not> snd (list_page w q n))"

definition last_page :: "provider \<Rightarrow> SandboxQuery option \<Rightarrow> nat \<Rightarrow> bool" where
  "last_page w q n = (page_ends w q n \<and> (\<forall>j<n. \<not> page_ends w q j))"

definition pages_upto ::
  "provider \<Rightarrow> SandboxQuery option \<Rightarrow> nat \<Rightarrow> nat \<Rightarrow> raw_sandbox list" where
  "pages_upto w q k n = concat (map (\<lambda>j. fst (list_page w q j)) [k..<Suc n])"

text \<open>
  The provider's answer to a termination request for a member: success, a failure
  that \<open>kill\<close> re-raises, or a failure classified as not-found.
\<close>

definition kill_raises :: "provider \<Rightarrow> SandboxInfo \<Rightarrow> bool" where
  "kill_raises w s =
     (case kill_response w (sandbox_id s) of None \<Rightarrow> False | Some e \<Rightarrow> \<not> is_not_found e)"

definition kill_succeeds :: "provider \<Rightarrow> SandboxInfo \<Rightarrow> bool" where
  "kill_succeeds w s = (kill_response w (sandbox_id s) = None)"

definition kill_calls :: "SandboxInfo list \<Rightarrow> call list" where
  "kill_calls sbxs = map (\<lambda>s. Kill (sandbox_id s)) sbxs"


subsection \<open>Example fleets\<close>

definition example_sandbox :: "string \<Rightarrow> e2b_state \<Rightarrow> datetime \<Rightarrow> raw_sandbox" where
  "example_sandbox sid st t0 =
     \<lparr>raw_sandbox_id = sid, raw_template_id = ''base'', raw_name = None,
      raw_metadata = [], raw_state = st, raw_started_at = t0,
      raw_end_at = t0 + 3600, raw_cpu_count = 2, raw_memory_mb = 512\<rparr>"

definition example_metrics :: "int \<Rightarrow> int \<Rightarrow> raw_metrics" where
  "example_metrics used_bytes total_bytes =
     \<lparr>m_cpu_count = 2, m_cpu_used_pct = Finite 25 (- 1),
      m_mem_total = total_bytes, m_mem_used = used_bytes,
      m_disk_total = 0, m_disk_used = 7,
      m_timestamp = 7200\<rparr>"

definition example_provider ::
  "(nat \<Rightarrow> raw_sandbox list \<times> bool) \<Rightarrow> (string \<Rightarrow> exn option) \<Rightarrow> provider" where
  "example_provider pages kills =
     \<lparr>list_page = (\<lambda>q. pages),
      connect_response = (\<lambda>sid. None),
      metrics_response =
        (\<lambda>sid start stop.
           if sid = ''sbx_idle'' then Inr [] else Inr [example_metrics 4296015872 4294967296]),
      command_response =
        (\<lambda>sid command t. Inr \<lparr>c_stdout = Some ''ok'', c_stderr = None, c_exit_code = 0\<rparr>),
      code_response =
        (\<lambda>sid code language t.
           Inr \<lparr>x_logs = Some ([''4''], []), x_error = None, x_results = [WithText (Some ''4'')]\<rparr>),
      kill_response = kills,
      calls = []\<rparr>"

text \<open>
  One page of three sandboxes; two pages; an empty page in the middle that still
  announces more; a provider that never ends; and an empty listing.
\<close>

definition one_page :: "nat \<Rightarrow> raw_sandbox list \<times> bool" where
  "one_page n =
     (if n = 0 then
        ([example_sandbox ''sbx_a'' RUNNING 6600,
          example_sandbox ''sbx_b'' PAUSED 3600,
          example_sandbox ''sbx_c'' RUNNING 6600], False)
      else ([], False))"

definition two_pages :: "nat \<Rightarrow> raw_sandbox list \<times> bool" where
  "two_pages n =
     (if n = 0 then
        ([example_sandbox ''sbx_a'' RUNNING 6600,
          example_sandbox ''sbx_b'' PAUSED 3600], True)
      else if n = 1 then ([example_sandbox ''sbx_c'' RUNNING 6600], False)
      else ([], False))"

definition gap_pages :: "nat \<Rightarrow> raw_sandbox list \<times> bool" where
  "gap_pages n =
     (if n = 0 then ([example_sandbox ''sbx_a'' RUNNING 6600], True)
      else if n = 1 then ([], True)
      else ([example_sandbox ''sbx_c'' RUNNING 6600], False))"

definition endless_pages :: "nat \<Rightarrow> raw_sandbox list \<times> bool" where
  "endless_pages n = ([example_sandbox ''sbx_a'' RUNNING 6600], True)"

definition no_pages :: "nat \<Rightarrow> raw_sandbox list \<times> bool" where
  "no_pages n = ([], False)"

definition one_fails :: "string \<Rightarrow> exn option" where
  "one_fails sid =
     (if sid = ''sbx_b'' then Some (ProviderException ''rate limit exceeded'') else None)"

definition one_gone :: "string \<Rightarrow> exn option" where
  "one_gone sid =
     (if sid = ''sbx_b'' then Some (ProviderException ''Sandbox sbx_b Not Found'') else None)"

section \<open>Lemmas\<close>

subsection \<open>Substrings and the provider log\<close>

lemma starts_with_iff: "starts_with n s \<longleftrightarrow> (\<exists>post. s = n @ post)"
  by (induction n s rule: starts_with.induct) auto

lemma contains_iff: "contains n s \<longleftrightarrow> (\<exists>pre post. s = pre @ n @ post)"
proof (induction s)
  case Nil
  then show ?case by auto
next
  case (Cons c cs)
  show ?case
  proof
    assume "contains n (c # cs)"
    then consider "starts_with n (c # cs)" | "contains n cs" by auto
    then show "\<exists>pre post. c # cs = pre @ n @ post"
    proof cases
      case 1
      then obtain post where "c # cs = n @ post" by (auto simp: starts_with_iff)
      then have "c # cs = [] @ n @ post" by simp
      then show ?thesis by blast
    next
      case 2
      then obtain pre post where "cs = pre @ n @ post" using Cons.IH by auto
      then have "c # cs = (c # pre) @ n @ post" by simp
      then show ?thesis by blast
    qed
  next
    assume "\<exists>pre post. c # cs = pre @ n @ post"
    then obtain pre post where eq: "c # cs = pre @ n @ post" by blast
    show "contains n (c # cs)"
    proof (cases pre)
      case Nil
      then have "starts_with n (c # cs)" using eq by (auto simp: starts_with_iff)
      then show ?thesis by simp
    next
      case (Cons p pre')
      then have "cs = pre' @ n @ post" using eq by simp
      then have "contains n cs" using Cons.IH by blast
      then show ?thesis by simp
    qed
  qed
qed

lemma kill_response_log [simp]: "kill_response (log_call c w) = kill_response w"
  and list_page_log [simp]: "list_page (log_call c w) = list_page w"
  and connect_response_log [simp]: "connect_response (log_call c w) = connect_response w"
  and metrics_response_log [simp]: "metrics_response (log_call c w) = metrics_response w"
  and command_response_log [simp]: "command_response (log_call c w) = command_response w"
  and code_response_log [simp]: "code_response (log_call c w) = code_response w"
  and calls_log [simp]: "calls (log_call c w) = calls w @ [c]"
  by (simp_all add: log_call_def)


lemma log_nothing [simp]: "w\<lparr>calls := calls w @ []\<rparr> = (w::provider)"
  by simp

lemma fetch_loop_stops:
  assumes "k \<le> n"
    and "\<forall>j. k \<le> j \<and> j < n \<longrightarrow> \<not> page_ends w q j"
    and "page_ends w q n"
    and "list_page w' = list_page w"
  shows "fetch_loop w' \<lparr>pg_query = q, pg_fetched = Suc k, has_next = snd (list_page w q k)\<rparr>
            (fst (list_page w q k)) acc
         = Some (acc @ map to_info (pages_upto w q k n),
                 w'\<lparr>calls := calls w' @ map (NextItems q) [Suc k..<Suc n]\<rparr>)"
  using assms
proof (induction "n - k" arbitrary: k w' acc)
  case 0
  then have kn: "k = n" by simp
  have "page_ends w q k" using "0.prems" kn by simp
  then show ?case
    unfolding kn
    by (subst fetch_loop.simps) (auto simp: page_ends_def pages_upto_def Let_def)
next
  case (Suc d)
  then have lt: "k < n" by simp
  then have ne: "\<not> page_ends w q k" using Suc.prems by simp
  let ?w = "log_call (NextItems q (Suc k)) w'"
  have step: "next_items w' \<lparr>pg_query = q, pg_fetched = Suc k, has_next = snd (list_page w q k)\<rparr>
        = (fst (list_page w q (Suc k)),
           \<lparr>pg_query = q, pg_fetched = Suc (Suc k), has_next = snd (list_page w q (Suc k))\<rparr>, ?w)"
    using Suc.prems(4) by (simp add: next_items_def split: prod.splits)
  have IH: "fetch_loop ?w \<lparr>pg_query = q, pg_fetched = Suc (Suc k), has_next = snd (list_page w q (Suc k))\<rparr>
       (fst (list_page w q (Suc k))) (acc @ map to_info (fst (list_page w q k)))
     = Some ((acc @ map to_info (fst (list_page w q k))) @ map to_info (pages_upto w q (Suc k) n),
             ?w\<lparr>calls := calls ?w @ map (NextItems q) [Suc (Suc k)..<Suc n]\<rparr>)"
    using Suc.hyps(2) Suc.prems lt
    by (intro Suc.hyps(1)) auto
  have split1: "pages_upto w q k n = fst (list_page w q k) @ pages_upto w q (Suc k) n"
    using lt by (simp add: pages_upto_def upt_conv_Cons)
  have split2: "[Suc k..<Suc n] = Suc k # [Suc (Suc k)..<Suc n]"
    using lt by (simp add: upt_conv_Cons)
  have "fetch_loop w' \<lparr>pg_query = q, pg_fetched = Suc k, has_next = snd (list_page w q k)\<rparr>
            (fst (list_page w q k)) acc
        = fetch_loop ?w \<lparr>pg_query = q, pg_fetched = Suc (Suc k), has_next = snd (list_page w q (Suc k))\<rparr>
            (fst (list_page w q (Suc k))) (acc @ map to_info (fst (list_page w q k)))"
    by (subst fetch_loop.simps) (use ne step in \<open>simp add: page_ends_def Let_def\<close>)
  also note IH
  also have "Some ((acc @ map to_info (fst (list_page w q k))) @ map to_info (pages_upto w q (Suc k) n),
             ?w\<lparr>calls := calls ?w @ map (NextItems q) [Suc (Suc k)..<Suc n]\<rparr>)
     = Some (acc @ map to_info (pages_upto w q k n),
                 w'\<lparr>calls := calls w' @ map (NextItems q) [Suc k..<Suc n]\<rparr>)"
    by (simp add: split1 split2 log_call_def del: upt_Suc)
  finally show ?case .
qed

lemma list_sandboxes_stops:
  assumes "last_page w (make_query st md) n"
  shows "list_sandboxes w st md
         = Some (map to_info (pages_upto w (make_query st md) 0 n),
                 w\<lparr>calls := calls w @ map (NextItems (make_query st md)) [0..<Suc n]\<rparr>)"
proof -
  let ?q = "make_query st md"
  let ?w = "log_call (NextItems ?q 0) w"
  have "fetch_loop ?w \<lparr>pg_query = ?q, pg_fetched = Suc 0, has_next = snd (list_page w ?q 0)\<rparr>
            (fst (list_page w ?q 0)) []
         = Some ([] @ map to_info (pages_upto w ?q 0 n),
                 ?w\<lparr>calls := calls ?w @ map (NextItems ?q) [Suc 0..<Suc n]\<rparr>)"
    using assms by (intro fetch_loop_stops) (auto simp: last_page_def)
  moreover have "[0..<Suc n] = 0 # [Suc 0..<Suc n]"
    by (simp add: upt_conv_Cons del: upt_Suc)
  ultimately show ?thesis
    by (simp add: list_sandboxes_def Let_def new_paginator_def next_items_def log_call_def
        case_prod_beta del: upt_Suc)
qed

lemma fetch_loop_forever_aux:
  assumes "\<forall>j. \<not> page_ends w q j"
  shows "fetch_loop w' pg items acc = Some r \<Longrightarrow>
     list_page w' = list_page w \<and> pg_query pg = q \<and> has_next pg \<and> items \<noteq> [] \<longrightarrow> False"
proof (rule fetch_loop.raw_induct [where P = "\<lambda>w' pg items acc r.
     list_page w' = list_page w \<and> pg_query pg = q \<and> has_next pg \<and> items \<noteq> [] \<longrightarrow> False"], goal_cases)
  case (1 f w' pg items acc r)
  show ?case
  proof
    assume a: "list_page w' = list_page w \<and> pg_query pg = q \<and> has_next pg \<and> items \<noteq> []"
    obtain its flag where pg: "list_page w q (pg_fetched pg) = (its, flag)" by (cases "list_page w q (pg_fetched pg)")
    have "its \<noteq> [] \<and> flag" using assms pg by (auto simp: page_ends_def dest: spec [of _ "pg_fetched pg"])
    then have "f (log_call (NextItems q (pg_fetched pg)) w')
          (pg\<lparr>pg_fetched := Suc (pg_fetched pg), has_next := flag\<rparr>) its (acc @ map to_info items)
          = Some r"
      using 1 a pg by (simp add: Let_def next_items_def)
    from 1(2) [OF this] \<open>its \<noteq> [] \<and> flag\<close> a show False by simp
  qed
qed

lemma list_sandboxes_forever:
  assumes "\<forall>j. \<not> page_ends w (make_query st md) j"
  shows "list_sandboxes w st md = None"
proof (cases "list_sandboxes w st md")
  case None
  then show ?thesis .
next
  case (Some r)
  obtain its flag where pg: "list_page w (make_query st md) 0 = (its, flag)"
    by (cases "list_page w (make_query st md) 0")
  have ne: "its \<noteq> [] \<and> flag" using assms pg by (auto simp: page_ends_def dest: spec [of _ 0])
  have "fetch_loop (log_call (NextItems (make_query st md) 0) w)
         \<lparr>pg_query = make_query st md, pg_fetched = Suc 0, has_next = flag\<rparr> its [] = Some r"
    using Some pg by (simp add: list_sandboxes_def Let_def new_paginator_def next_items_def)
  from fetch_loop_forever_aux [OF assms this] ne show ?thesis by simp
qed

lemma kill_raises_log [simp]: "kill_raises (log_call c w) = kill_raises w"
  and kill_succeeds_log [simp]: "kill_succeeds (log_call c w) = kill_succeeds w"
  by (simp_all add: kill_raises_def kill_succeeds_def fun_eq_iff)

lemma log_call_append: "log_call c w\<lparr>calls := calls (log_call c w) @ cs\<rparr> = w\<lparr>calls := calls w @ c # cs\<rparr>"
  by (simp add: log_call_def)

lemma kill_each_all:
  "\<forall>s\<in>set sbxs. \<not> kill_raises w s \<Longrightarrow>
   kill_each w sbxs c
   = (Inr (c + int (length (filter (kill_succeeds w) sbxs))),
      w\<lparr>calls := calls w @ kill_calls sbxs\<rparr>)"
proof (induction sbxs arbitrary: w c)
  case Nil
  then show ?case by (simp add: kill_calls_def)
next
  case (Cons s sbxs)
  have no: "\<not> kill_raises w s" and rest: "\<forall>x\<in>set sbxs. \<not> kill_raises (log_call (Kill (sandbox_id s)) w) x"
    using Cons.prems by simp_all
  show ?case
  proof (cases "kill_response w (sandbox_id s)")
    case None
    then show ?thesis
      using Cons.IH [OF rest]
      by (simp add: kill_def Let_def kill_succeeds_def [of w s] log_call_append kill_calls_def)
  next
    case (Some e)
    then have "is_not_found e" using no by (simp add: kill_raises_def)
    then show ?thesis
      using Some Cons.IH [OF rest]
      by (simp add: kill_def Let_def kill_succeeds_def [of w s] log_call_append kill_calls_def)
  qed
qed

lemma kill_each_abort:
  "\<forall>x\<in>set pre. \<not> kill_raises w x \<Longrightarrow> kill_response w (sandbox_id s) = Some e \<Longrightarrow>
   \<not> is_not_found e \<Longrightarrow>
   kill_each w (pre @ s # post) c = (Inl e, w\<lparr>calls := calls w @ kill_calls (pre @ [s])\<rparr>)"
proof (induction pre arbitrary: w c)
  case Nil
  then show ?case by (simp add: kill_def Let_def kill_calls_def log_call_def)
next
  case (Cons p pre)
  have no: "\<not> kill_raises w p" and rest: "\<forall>x\<in>set pre. \<not> kill_raises (log_call (Kill (sandbox_id p)) w) x"
    using Cons.prems by simp_all
  have IH: "kill_each (log_call (Kill (sandbox_id p)) w) (pre @ s # post) c'
     = (Inl e, log_call (Kill (sandbox_id p)) w
          \<lparr>calls := calls (log_call (Kill (sandbox_id p)) w) @ kill_calls (pre @ [s])\<rparr>)" for c'
    using Cons.prems by (intro Cons.IH [OF rest]) simp_all
  show ?case
  proof (cases "kill_response w (sandbox_id p)")
    case None
    then show ?thesis
      using IH by (simp add: kill_def Let_def log_call_append kill_calls_def)
  next
    case (Some e')
    then have "is_not_found e'" using no by (simp add: kill_raises_def)
    then show ?thesis
      using Some IH by (simp add: kill_def Let_def log_call_append kill_calls_def)
  qed
qed

lemma fetch_loop_frame:
  "fetch_loop w pg items acc = Some r \<Longrightarrow>
     kill_response (snd r) = kill_response w \<and> list_page (snd r) = list_page w
     \<and> connect_response (snd r) = connect_response w"
proof (rule fetch_loop.raw_induct [where P = "\<lambda>w pg items acc r.
     kill_response (snd r) = kill_response w \<and> list_page (snd r) = list_page w
     \<and> connect_response (snd r) = connect_response w"], goal_cases)
  case (1 f w pg items acc r)
  show ?case
  proof (cases "items \<noteq> [] \<and> has_next pg")
    case True
    obtain its flag where pg: "list_page w (pg_query pg) (pg_fetched pg) = (its, flag)"
      by (cases "list_page w (pg_query pg) (pg_fetched pg)")
    have "f (log_call (NextItems (pg_query pg) (pg_fetched pg)) w)
            (pg\<lparr>pg_fetched := Suc (pg_fetched pg), has_next := flag\<rparr>) its
            (acc @ map to_info items) = Some r"
      using 1(3) True pg by (simp add: Let_def next_items_def)
    from 1(2) [OF this] show ?thesis by simp
  next
    case False
    then show ?thesis using 1(3) by (auto simp: Let_def split: if_splits)
  qed
qed

lemma list_sandboxes_frame:
  assumes "list_sandboxes w st md = Some (sbxs, w')"
  shows "kill_response w' = kill_response w"
  using assms fetch_loop_frame [of "log_call (NextItems (make_query st md) 0) w" _ _ "[]" "(sbxs, w')"]
  by (auto simp: list_sandboxes_def Let_def next_items_def new_paginator_def split: prod.splits)

lemma fetch_loop_states:
  "fetch_loop w pg items acc = Some r \<Longrightarrow>
     (\<forall>x\<in>set acc. state x = ''running'' \<or> state x = ''paused'') \<longrightarrow>
     (\<forall>x\<in>set (fst r). state x = ''running'' \<or> state x = ''paused'')"
proof (rule fetch_loop.raw_induct [where P = "\<lambda>w pg items acc r.
     (\<forall>x\<in>set acc. state x = ''running'' \<or> state x = ''paused'') \<longrightarrow>
     (\<forall>x\<in>set (fst r). state x = ''running'' \<or> state x = ''paused'')"], goal_cases)
  case (1 f w pg items acc r)
  have st: "state (to_info x) = ''running'' \<or> state (to_info x) = ''paused''" for x
    by (cases "raw_state x") (simp_all add: to_info_def)
  show ?case
  proof
    assume acc: "\<forall>x\<in>set acc. state x = ''running'' \<or> state x = ''paused''"
    then have acc': "\<forall>x\<in>set (acc @ map to_info items). state x = ''running'' \<or> state x = ''paused''"
      using st by auto
    show "\<forall>x\<in>set (fst r). state x = ''running'' \<or> state x = ''paused''"
      using 1 acc acc'
      by (auto simp: Let_def split: if_splits prod.splits)
  qed
qed

lemma list_sandboxes_states:
  assumes "list_sandboxes w st md = Some (sbxs, w')"
  shows "\<forall>x\<in>set sbxs. state x = ''running'' \<or> state x = ''paused''"
  using assms fetch_loop_states [of "log_call (NextItems (make_query st md) 0) w" _ _ "[]" "(sbxs, w')"]
  by (auto simp: list_sandboxes_def Let_def next_items_def new_paginator_def split: prod.splits)

lemma partition_count:
  "\<forall>x\<in>set xs. state x = ''running'' \<or> state x = ''paused'' \<Longrightarrow>
   length (filter (\<lambda>s. state s = ''running'') xs) + length (filter (\<lambda>s. state s = ''paused'') xs)
   = length xs"
  by (induction xs) auto









subsection \<open>First minimum and first maximum\<close>

lemma min_from_snoc:
  "min_from key best (xs @ [x]) =
     (if key x < key (min_from key best xs) then x else min_from key best xs)"
  by (induction xs arbitrary: best) simp_all

lemma max_from_snoc:
  "max_from key best (xs @ [x]) =
     (if key x > key (max_from key best xs) then x else max_from key best xs)"
  by (induction xs arbitrary: best) simp_all

lemma min_from_first:
  "\<exists>i<length (b # xs). min_from key b xs = (b # xs) ! i
     \<and> (\<forall>j<length (b # xs). key ((b # xs) ! i) \<le> key ((b # xs) ! j))
     \<and> (\<forall>j<i. key ((b # xs) ! i) < key ((b # xs) ! j))"
proof (induction xs rule: rev_induct)
  case Nil
  then show ?case by simp
next
  case (snoc x xs)
  then obtain i where i: "i < length (b # xs)" "min_from key b xs = (b # xs) ! i"
    and all: "\<forall>j<length (b # xs). key ((b # xs) ! i) \<le> key ((b # xs) ! j)"
    and before: "\<forall>j<i. key ((b # xs) ! i) < key ((b # xs) ! j)"
    by blast
  let ?ys = "b # xs @ [x]"
  have old: "?ys ! j = (b # xs) ! j" if "j < length (b # xs)" for j
    using that by (metis append_Cons nth_append)
  have new: "?ys ! length (b # xs) = x"
    by (metis append_Cons nth_append_length)
  show ?case
  proof (cases "key x < key (min_from key b xs)")
    case True
    have "\<forall>j<length ?ys. key x \<le> key (?ys ! j)"
    proof (intro allI impI)
      fix j assume "j < length ?ys"
      then consider "j < length (b # xs)" | "j = length (b # xs)" by fastforce
      then show "key x \<le> key (?ys ! j)"
      proof cases
        case 1
        then show ?thesis using all True i(2) old by force
      next
        case 2
        then show ?thesis using new by simp
      qed
    qed
    moreover have "\<forall>j<length (b # xs). key x < key (?ys ! j)"
      using all True i(2) old by force
    ultimately show ?thesis
      using True new
      by (intro exI [of _ "length (b # xs)"]) (simp add: min_from_snoc)
  next
    case False
    have "\<forall>j<length ?ys. key ((b # xs) ! i) \<le> key (?ys ! j)"
    proof (intro allI impI)
      fix j assume "j < length ?ys"
      then consider "j < length (b # xs)" | "j = length (b # xs)" by fastforce
      then show "key ((b # xs) ! i) \<le> key (?ys ! j)"
      proof cases
        case 1
        then show ?thesis using all old by simp
      next
        case 2
        then show ?thesis using new False i(2) by simp
      qed
    qed
    moreover have "\<forall>j<i. key ((b # xs) ! i) < key (?ys ! j)"
      using before i(1) old by simp
    moreover have "i < length ?ys" using i(1) by simp
    ultimately show ?thesis
      using False i old [OF i(1)]
      by (intro exI [of _ i]) (simp add: min_from_snoc)
  qed
qed

lemma max_from_first:
  "\<exists>i<length (b # xs). max_from key b xs = (b # xs) ! i
     \<and> (\<forall>j<length (b # xs). key ((b # xs) ! j) \<le> key ((b # xs) ! i))
     \<and> (\<forall>j<i. key ((b # xs) ! j) < key ((b # xs) ! i))"
proof (induction xs rule: rev_induct)
  case Nil
  then show ?case by simp
next
  case (snoc x xs)
  then obtain i where i: "i < length (b # xs)" "max_from key b xs = (b # xs) ! i"
    and all: "\<forall>j<length (b # xs). key ((b # xs) ! j) \<le> key ((b # xs) ! i)"
    and before: "\<forall>j<i. key ((b # xs) ! j) < key ((b # xs) ! i)"
    by blast
  let ?ys = "b # xs @ [x]"
  have old: "?ys ! j = (b # xs) ! j" if "j < length (b # xs)" for j
    using that by (metis append_Cons nth_append)
  have new: "?ys ! length (b # xs) = x"
    by (metis append_Cons nth_append_length)
  show ?case
  proof (cases "key x > key (max_from key b xs)")
    case True
    have "\<forall>j<length ?ys. key (?ys ! j) \<le> key x"
    proof (intro allI impI)
      fix j assume "j < length ?ys"
      then consider "j < length (b # xs)" | "j = length (b # xs)" by fastforce
      then show "key (?ys ! j) \<le> key x"
      proof cases
        case 1
        then show ?thesis using all True i(2) old by force
      next
        case 2
        then show ?thesis using new by simp
      qed
    qed
    moreover have "\<forall>j<length (b # xs). key (?ys ! j) < key x"
      using all True i(2) old by force
    ultimately show ?thesis
      using True new
      by (intro exI [of _ "length (b # xs)"]) (simp add: max_from_snoc)
  next
    case False
    have "\<forall>j<length ?ys. key (?ys ! j) \<le> key ((b # xs) ! i)"
    proof (intro allI impI)
      fix j assume "j < length ?ys"
      then consider "j < length (b # xs)" | "j = length (b # xs)" by fastforce
      then show "key (?ys ! j) \<le> key ((b # xs) ! i)"
      proof cases
        case 1
        then show ?thesis using all old by simp
      next
        case 2
        then show ?thesis using new False i(2) by simp
      qed
    qed
    moreover have "\<forall>j<i. key (?ys ! j) < key ((b # xs) ! i)"
      using before i(1) old by simp
    moreover have "i < length ?ys" using i(1) by simp
    ultimately show ?thesis
      using False i old [OF i(1)]
      by (intro exI [of _ i]) (simp add: max_from_snoc)
  qed
qed

lemma py_min_first:
  assumes "xs \<noteq> []"
  shows "\<exists>i<length xs. py_min key xs = Some (xs ! i)
     \<and> (\<forall>j<length xs. key (xs ! i) \<le> key (xs ! j))
     \<and> (\<forall>j<i. key (xs ! i) < key (xs ! j))"
proof -
  obtain b rest where xs: "xs = b # rest" using assms by (cases xs) auto
  show ?thesis unfolding xs using min_from_first [of b rest key] by (simp add: py_min_def)
qed

lemma py_max_first:
  assumes "xs \<noteq> []"
  shows "\<exists>i<length xs. py_max key xs = Some (xs ! i)
     \<and> (\<forall>j<length xs. key (xs ! j) \<le> key (xs ! i))
     \<and> (\<forall>j<i. key (xs ! j) < key (xs ! i))"
proof -
  obtain b rest where xs: "xs = b # rest" using assms by (cases xs) auto
  show ?thesis unfolding xs using max_from_first [of b rest key] by (simp add: py_max_def)
qed

subsection \<open>The example fleets\<close>

lemma not_found_message: "is_not_found (ProviderException ''Sandbox sbx_b Not Found'')"
  by code_simp

lemma rate_limit_message: "\<not> is_not_found (ProviderException ''rate limit exceeded'')"
  by code_simp

lemma one_page_listing:
  "list_sandboxes (example_provider one_page kills) None None
   = Some (map to_info (fst (one_page 0)),
           (example_provider one_page kills)\<lparr>calls := [NextItems None 0]\<rparr>)"
  using list_sandboxes_stops [of "example_provider one_page kills" None None 0]
  by (simp add: last_page_def page_ends_def example_provider_def one_page_def pages_upto_def
      make_query_def truthy_def)

lemma no_pages_listing:
  "list_sandboxes (example_provider no_pages kills) None None
   = Some ([], (example_provider no_pages kills)\<lparr>calls := [NextItems None 0]\<rparr>)"
  using list_sandboxes_stops [of "example_provider no_pages kills" None None 0]
  by (simp add: last_page_def page_ends_def example_provider_def no_pages_def pages_upto_def
      make_query_def truthy_def)

lemma one_page_summary:
  "summary (example_provider one_page kills) 7200 7201
   = Some (summarize (map to_info (fst (one_page 0))) 7200 7201,
           (example_provider one_page kills)\<lparr>calls := [NextItems None 0]\<rparr>)"
  by (simp add: summary_def one_page_listing)

text \<open>A provider that keeps announcing more non-empty pages keeps the loop running.\<close>

lemma endless_listing:
  "list_sandboxes (example_provider endless_pages kills) None None = None"
  by (rule list_sandboxes_forever)
    (simp add: page_ends_def example_provider_def endless_pages_def)

subsection \<open>Float rounding\<close>

lemma bit_length_numeral [simp]:
  "bit_length 0 = 0"
  "bit_length (Suc 0) = 1"
  "bit_length 1 = 1"
  "bit_length (numeral Num.One) = 1"
  "bit_length (numeral (Num.Bit0 k)) = Suc (bit_length (numeral k))"
  "bit_length (numeral (Num.Bit1 k)) = Suc (bit_length (numeral k))"
proof -
  show "bit_length 0 = 0" by (simp add: bit_length.simps)
  show "bit_length (Suc 0) = 1" by (simp add: bit_length.simps)
  show "bit_length 1 = 1" by (simp add: bit_length.simps)
  show "bit_length (numeral Num.One) = 1" by (simp add: bit_length.simps)
  show "bit_length (numeral (Num.Bit0 k)) = Suc (bit_length (numeral k))"
    by (subst bit_length.simps) simp
  have "numeral (Num.Bit1 k) div (2::nat) = numeral k"
    by (simp add: numeral_Bit1_div_2)
  then show "bit_length (numeral (Num.Bit1 k)) = Suc (bit_length (numeral k))"
    by (subst bit_length.simps) simp
qed

lemmas nearest_eval = nearest_binary64_def floor_log2_def round_half_even_def Let_def



lemma twice_used:
  "truediv 8192 4096 = Inr (Finite 4503599627370496 (- 51))"
  "times_100 (Finite 4503599627370496 (- 51)) = Finite 7036874417766400 (- 45)"
  "py_round1 (Finite 7036874417766400 (- 45)) = Inr (Finite 7036874417766400 (- 45))"
proof -
  have a: "nearest_binary64 8192 4096 = (4503599627370496, - 51)"
    by (simp add: nearest_eval)
  show "truediv 8192 4096 = Inr (Finite 4503599627370496 (- 51))"
    by (simp add: truediv_def a too_large_def)
  have b: "nearest_binary64 450359962737049600 2251799813685248 = (7036874417766400, - 45)"
    by (simp add: nearest_eval)
  show "times_100 (Finite 4503599627370496 (- 51)) = Finite 7036874417766400 (- 45)"
    by (simp add: times_100_def b too_large_def)
  have c: "round_half_even 70368744177664000 35184372088832 = 2000"
    by (simp add: round_half_even_def Let_def)
  have d: "nearest_binary64 2000 10 = (7036874417766400, - 45)"
    by (simp add: nearest_eval)
  show "py_round1 (Finite 7036874417766400 (- 45)) = Inr (Finite 7036874417766400 (- 45))"
    by (simp add: py_round1_def c d too_large_def)
qed





section \<open>Properties\<close>

text \<open>
  Claim C1, as stated, fails: in a fleet of three where the second member's termination
  fails with a provider error that is not a not-found failure, the confirmed
  \<open>kill_all\<close> does not return 2. The error leaves \<open>kill\<close> and then \<open>kill_all\<close>,
  and the third member is never asked to terminate.
\<close>

theorem kill_all_aborts:
  "kill_all (example_provider one_page one_fails) True
   = Some (Inl (ProviderException ''rate limit exceeded''),
           (example_provider one_page one_fails)
             \<lparr>calls := [NextItems None 0, Kill ''sbx_a'', Kill ''sbx_b'']\<rparr>)"
proof -
  let ?w = "(example_provider one_page one_fails)\<lparr>calls := [NextItems None 0]\<rparr>"
  let ?a = "to_info (example_sandbox ''sbx_a'' RUNNING 6600)"
  let ?b = "to_info (example_sandbox ''sbx_b'' PAUSED 3600)"
  let ?c = "to_info (example_sandbox ''sbx_c'' RUNNING 6600)"
  have "kill_each ?w ([?a] @ ?b # [?c]) 0
        = (Inl (ProviderException ''rate limit exceeded''),
           ?w\<lparr>calls := calls ?w @ kill_calls ([?a] @ [?b])\<rparr>)"
    using rate_limit_message
    by (intro kill_each_abort)
      (simp_all add: kill_raises_def example_provider_def one_fails_def to_info_def
        example_sandbox_def)
  then show ?thesis
    by (simp add: kill_all_def one_page_listing one_page_def kill_calls_def to_info_def
        example_sandbox_def)
qed

text \<open>
  Claim C1, amended. A confirmed \<open>kill_all\<close> kills the listed members in listing order.
  When no member's termination fails with a failure that \<open>kill\<close> re-raises, the loop
  runs to completion and returns the number of members whose \<open>kill\<close> returned true
  (not-found members are attempted but not counted). The first member whose termination
  fails otherwise ends the batch: its error is the outcome of \<open>kill_all\<close>, and no later
  member is attempted.
\<close>

theorem kill_all_confirmed:
  assumes "list_sandboxes w None None = Some (sbxs, w')"
  shows "((\<forall>s\<in>set sbxs. \<not> kill_raises w s) \<longrightarrow>
            kill_all w True
            = Some (Inr (int (length (filter (kill_succeeds w) sbxs))),
                    w'\<lparr>calls := calls w' @ kill_calls sbxs\<rparr>))
       \<and> (\<forall>pre s post e.
            sbxs = pre @ s # post \<and> (\<forall>x\<in>set pre. \<not> kill_raises w x)
            \<and> kill_response w (sandbox_id s) = Some e \<and> \<not> is_not_found e \<longrightarrow>
            kill_all w True
            = Some (Inl e, w'\<lparr>calls := calls w' @ kill_calls (pre @ [s])\<rparr>))"
proof -
  have kr: "kill_response w' = kill_response w"
    using assms by (rule list_sandboxes_frame)
  then have same: "kill_raises w' = kill_raises w" "kill_succeeds w' = kill_succeeds w"
    by (simp_all add: kill_raises_def kill_succeeds_def fun_eq_iff)
  have all: "kill_all w True = Some (kill_each w' sbxs 0)"
    using assms by (simp add: kill_all_def)
  show ?thesis
  proof (intro conjI impI allI)
    assume "\<forall>s\<in>set sbxs. \<not> kill_raises w s"
    then have "\<forall>s\<in>set sbxs. \<not> kill_raises w' s" using same by simp
    from kill_each_all [OF this, of 0] show "kill_all w True
            = Some (Inr (int (length (filter (kill_succeeds w) sbxs))),
                    w'\<lparr>calls := calls w' @ kill_calls sbxs\<rparr>)"
      using all same by simp
  next
    fix pre s post e
    assume a: "sbxs = pre @ s # post \<and> (\<forall>x\<in>set pre. \<not> kill_raises w x)
            \<and> kill_response w (sandbox_id s) = Some e \<and> \<not> is_not_found e"
    then have "\<forall>x\<in>set pre. \<not> kill_raises w' x" "kill_response w' (sandbox_id s) = Some e"
      "\<not> is_not_found e"
      using same kr by simp_all
    from kill_each_abort [OF this, of post 0]
    show "kill_all w True = Some (Inl e, w'\<lparr>calls := calls w' @ kill_calls (pre @ [s])\<rparr>)"
      using all a by simp
  qed
qed

theorem kill_all_confirmed_witness:
  "kill_all (example_provider one_page one_gone) True
   = Some (Inr 2, (example_provider one_page one_gone)
        \<lparr>calls := [NextItems None 0, Kill ''sbx_a'', Kill ''sbx_b'', Kill ''sbx_c'']\<rparr>)
   \<and> kill_all (example_provider one_page one_fails) True
   = Some (Inl (ProviderException ''rate limit exceeded''),
        (example_provider one_page one_fails)
        \<lparr>calls := [NextItems None 0, Kill ''sbx_a'', Kill ''sbx_b'']\<rparr>)"
proof -
  let ?a = "to_info (example_sandbox ''sbx_a'' RUNNING 6600)"
  let ?b = "to_info (example_sandbox ''sbx_b'' PAUSED 3600)"
  let ?c = "to_info (example_sandbox ''sbx_c'' RUNNING 6600)"
  have l1: "list_sandboxes (example_provider one_page one_gone) None None
     = Some ([?a, ?b, ?c], (example_provider one_page one_gone)\<lparr>calls := [NextItems None 0]\<rparr>)"
    by (simp add: one_page_listing one_page_def)
  have l2: "list_sandboxes (example_provider one_page one_fails) None None
     = Some ([?a, ?b, ?c], (example_provider one_page one_fails)\<lparr>calls := [NextItems None 0]\<rparr>)"
    by (simp add: one_page_listing one_page_def)
  have ok: "\<forall>s\<in>set [?a, ?b, ?c]. \<not> kill_raises (example_provider one_page one_gone) s"
    using not_found_message
    by (simp add: kill_raises_def example_provider_def one_gone_def to_info_def example_sandbox_def)
  have n: "int (length (filter (kill_succeeds (example_provider one_page one_gone)) [?a, ?b, ?c])) = 2"
    by (simp add: kill_succeeds_def example_provider_def one_gone_def to_info_def example_sandbox_def)
  have bad: "[?a, ?b, ?c] = [?a] @ ?b # [?c]
      \<and> (\<forall>x\<in>set [?a]. \<not> kill_raises (example_provider one_page one_fails) x)
      \<and> kill_response (example_provider one_page one_fails) (sandbox_id ?b)
          = Some (ProviderException ''rate limit exceeded'')
      \<and> \<not> is_not_found (ProviderException ''rate limit exceeded'')"
    using rate_limit_message
    by (simp add: kill_raises_def example_provider_def one_fails_def to_info_def example_sandbox_def)
  from kill_all_confirmed [OF l1] ok n
  have first: "kill_all (example_provider one_page one_gone) True
   = Some (Inr 2, (example_provider one_page one_gone)
        \<lparr>calls := [NextItems None 0, Kill ''sbx_a'', Kill ''sbx_b'', Kill ''sbx_c'']\<rparr>)"
    by (simp add: kill_calls_def to_info_def example_sandbox_def)
  from kill_all_confirmed [OF l2] bad
  have "kill_all (example_provider one_page one_fails) True
   = Some (Inl (ProviderException ''rate limit exceeded''),
        (example_provider one_page one_fails)\<lparr>calls := [NextItems None 0]\<rparr>
        \<lparr>calls := calls ((example_provider one_page one_fails)\<lparr>calls := [NextItems None 0]\<rparr>)
            @ kill_calls ([?a] @ [?b])\<rparr>)"
    by blast
  then have second: "kill_all (example_provider one_page one_fails) True
   = Some (Inl (ProviderException ''rate limit exceeded''),
        (example_provider one_page one_fails)
        \<lparr>calls := [NextItems None 0, Kill ''sbx_a'', Kill ''sbx_b'']\<rparr>)"
    by (simp add: kill_calls_def to_info_def example_sandbox_def)
  from first second show ?thesis by simp
qed

text \<open>
  Claim C2. \<open>kill\<close> returns true when the provider's terminate succeeds; it returns
  false, raising nothing, exactly when the provider's failure is classified as not-found,
  that is when the lower-cased message contains \<open>not found\<close> or \<open>404\<close>; any other
  provider failure leaves \<open>kill\<close> unchanged.
\<close>

theorem kill_classifies:
  "(kill_response w sid = None \<longrightarrow> fst (kill w sid) = Inr True)
   \<and> (\<forall>e. kill_response w sid = Some e \<and> is_not_found e \<longrightarrow> fst (kill w sid) = Inr False)
   \<and> (\<forall>e. kill_response w sid = Some e \<and> \<not> is_not_found e \<longrightarrow> fst (kill w sid) = Inl e)
   \<and> (fst (kill w sid) = Inr False \<longleftrightarrow> (\<exists>e. kill_response w sid = Some e \<and> is_not_found e))
   \<and> (\<forall>e. is_not_found e \<longleftrightarrow>
          (\<exists>pre post. lower (str e) = pre @ ''not found'' @ post)
          \<or> (\<exists>pre post. lower (str e) = pre @ ''404'' @ post))"
proof -
  have "\<forall>e. is_not_found e \<longleftrightarrow>
          (\<exists>pre post. lower (str e) = pre @ ''not found'' @ post)
          \<or> (\<exists>pre post. lower (str e) = pre @ ''404'' @ post)"
    by (simp add: is_not_found_def Let_def contains_iff)
  moreover have "(kill_response w sid = None \<longrightarrow> fst (kill w sid) = Inr True)
   \<and> (\<forall>e. kill_response w sid = Some e \<and> is_not_found e \<longrightarrow> fst (kill w sid) = Inr False)
   \<and> (\<forall>e. kill_response w sid = Some e \<and> \<not> is_not_found e \<longrightarrow> fst (kill w sid) = Inl e)
   \<and> (fst (kill w sid) = Inr False \<longleftrightarrow> (\<exists>e. kill_response w sid = Some e \<and> is_not_found e))"
    by (auto simp: kill_def Let_def split: option.splits)
  ultimately show ?thesis by blast
qed

theorem kill_classifies_witness:
  "kill_response (example_provider one_page one_gone) ''sbx_a'' = None
   \<and> fst (kill (example_provider one_page one_gone) ''sbx_a'') = Inr True
   \<and> kill_response (example_provider one_page one_gone) ''sbx_b''
       = Some (ProviderException ''Sandbox sbx_b Not Found'')
   \<and> is_not_found (ProviderException ''Sandbox sbx_b Not Found'')
   \<and> fst (kill (example_provider one_page one_gone) ''sbx_b'') = Inr False
   \<and> kill_response (example_provider one_page one_fails) ''sbx_b''
       = Some (ProviderException ''rate limit exceeded'')
   \<and> \<not> is_not_found (ProviderException ''rate limit exceeded'')
   \<and> fst (kill (example_provider one_page one_fails) ''sbx_b'')
       = Inl (ProviderException ''rate limit exceeded'')"
  using kill_classifies [of "example_provider one_page one_gone" "''sbx_a''"]
    kill_classifies [of "example_provider one_page one_gone" "''sbx_b''"]
    kill_classifies [of "example_provider one_page one_fails" "''sbx_b''"]
    not_found_message rate_limit_message
  by (simp add: example_provider_def one_gone_def one_fails_def)

text \<open>
  Claim C3. When the connection and the provider's metrics request succeed: without
  \<open>start\<close> and \<open>end\<close>, exactly one record gives the single converted snapshot, and
  zero or several records give the whole converted sequence; with \<open>start\<close> or \<open>end\<close>
  the result is always the whole sequence, also when it has one element.
\<close>

theorem metrics_shape:
  assumes "connect_response w sid = None"
    and "metrics_response w sid start stop = Inr raw"
  shows "(start = None \<and> stop = None \<and> length raw = 1 \<longrightarrow>
            fst (metrics w sid start stop) = Inr (Single (to_metrics (raw ! 0))))
       \<and> (start = None \<and> stop = None \<and> length raw \<noteq> 1 \<longrightarrow>
            fst (metrics w sid start stop) = Inr (Many (map to_metrics raw)))
       \<and> (start \<noteq> None \<or> stop \<noteq> None \<longrightarrow>
            fst (metrics w sid start stop) = Inr (Many (map to_metrics raw)))"
  using assms by (auto simp: metrics_def Let_def nth_map)

theorem metrics_shape_witness:
  "fst (metrics (example_provider one_page one_gone) ''sbx_a'' None None)
     = Inr (Single (to_metrics (example_metrics 4296015872 4294967296)))
   \<and> fst (metrics (example_provider one_page one_gone) ''sbx_a'' (Some 3600) None)
     = Inr (Many [to_metrics (example_metrics 4296015872 4294967296)])
   \<and> fst (metrics (example_provider one_page one_gone) ''sbx_idle'' None None)
     = Inr (Many [])"
proof -
  let ?w = "example_provider one_page one_gone"
  have c: "connect_response ?w sid = None" for sid
    by (simp add: example_provider_def)
  have m: "metrics_response ?w ''sbx_a'' start stop
             = Inr [example_metrics 4296015872 4294967296]" for start stop
    by (simp add: example_provider_def)
  have m0: "metrics_response ?w ''sbx_idle'' None None = Inr []"
    by (simp add: example_provider_def)
  have a: "fst (metrics ?w ''sbx_a'' None None)
     = Inr (Single (to_metrics (example_metrics 4296015872 4294967296)))"
    using metrics_shape [OF c m [of None None]] by simp
  have b: "fst (metrics ?w ''sbx_a'' (Some 3600) None)
     = Inr (Many [to_metrics (example_metrics 4296015872 4294967296)])"
    using metrics_shape [OF c m [of "Some 3600" None]] by simp
  have d: "fst (metrics ?w ''sbx_idle'' None None) = Inr (Many [])"
    using metrics_shape [OF c m0] by simp
  from a b d show ?thesis by simp
qed

text \<open>
  Claim C4. \<open>kill_all\<close> without confirmation raises \<open>ValueError\<close> (the invalid-argument
  error) and hands the provider back as it was: nothing was listed, nothing terminated,
  the call log is unchanged.
\<close>

theorem kill_all_unconfirmed:
  "kill_all w False
   = Some (Inl (ValueError ''Must pass confirm=True to kill all sandboxes''), w)"
  by (simp add: kill_all_def)

theorem kill_all_unconfirmed_witness:
  "kill_all (example_provider one_page one_fails) False
   = Some (Inl (ValueError ''Must pass confirm=True to kill all sandboxes''),
           example_provider one_page one_fails)
   \<and> calls (example_provider one_page one_fails) = []"
  using kill_all_unconfirmed [of "example_provider one_page one_fails"]
  by (simp add: example_provider_def)

text \<open>
  Claim C5. \<open>list_sandboxes\<close> requests page 0 and then one page after the other until
  the first page that is empty or does not announce more; it returns the converted
  records of the pages it requested, in arrival order, and it has requested exactly
  those pages. A listing whose first page is empty gives the empty sequence, not an
  error. (The pages are those of a listing that ends; \<open>list_sandboxes_forever\<close> shows
  what a provider that never ends does.)
\<close>

theorem list_sandboxes_exhausts:
  "(last_page w (make_query st md) n \<longrightarrow>
      list_sandboxes w st md
      = Some (map to_info (pages_upto w (make_query st md) 0 n),
              w\<lparr>calls := calls w @ map (NextItems (make_query st md)) [0..<Suc n]\<rparr>))
   \<and> (fst (list_page w (make_query st md) 0) = [] \<longrightarrow>
      list_sandboxes w st md
      = Some ([], w\<lparr>calls := calls w @ [NextItems (make_query st md) 0]\<rparr>))"
proof (intro conjI impI)
  assume "last_page w (make_query st md) n"
  then show "list_sandboxes w st md
      = Some (map to_info (pages_upto w (make_query st md) 0 n),
              w\<lparr>calls := calls w @ map (NextItems (make_query st md)) [0..<Suc n]\<rparr>)"
    by (rule list_sandboxes_stops)
next
  assume "fst (list_page w (make_query st md) 0) = []"
  then have "last_page w (make_query st md) 0" "pages_upto w (make_query st md) 0 0 = []"
    by (simp_all add: last_page_def page_ends_def pages_upto_def)
  then show "list_sandboxes w st md
      = Some ([], w\<lparr>calls := calls w @ [NextItems (make_query st md) 0]\<rparr>)"
    using list_sandboxes_stops [of w st md 0] by simp
qed

theorem list_sandboxes_exhausts_witness:
  "last_page (example_provider two_pages one_gone) (make_query None None) (Suc 0)
   \<and> list_sandboxes (example_provider two_pages one_gone) None None
     = Some ([to_info (example_sandbox ''sbx_a'' RUNNING 6600),
              to_info (example_sandbox ''sbx_b'' PAUSED 3600),
              to_info (example_sandbox ''sbx_c'' RUNNING 6600)],
             (example_provider two_pages one_gone)
               \<lparr>calls := [NextItems None 0, NextItems None (Suc 0)]\<rparr>)
   \<and> last_page (example_provider gap_pages one_gone) (make_query None None) (Suc 0)
   \<and> list_sandboxes (example_provider gap_pages one_gone) None None
     = Some ([to_info (example_sandbox ''sbx_a'' RUNNING 6600)],
             (example_provider gap_pages one_gone)
               \<lparr>calls := [NextItems None 0, NextItems None (Suc 0)]\<rparr>)
   \<and> fst (list_page (example_provider no_pages one_gone) (make_query (Some ''paused'') None) 0) = []
   \<and> list_sandboxes (example_provider no_pages one_gone) (Some ''paused'') None
     = Some ([], (example_provider no_pages one_gone)
               \<lparr>calls := [NextItems (Some \<lparr>query_state = Some [PAUSED], query_metadata = None\<rparr>) 0]\<rparr>)"
proof -
  have q: "make_query None None = None"
    "make_query (Some ''paused'') None = Some \<lparr>query_state = Some [PAUSED], query_metadata = None\<rparr>"
    by (simp_all add: make_query_def truthy_def)
  have less2: "(\<forall>j<Suc 0. P j) \<longleftrightarrow> P 0" for P by simp
  have l1: "last_page (example_provider two_pages one_gone) (make_query None None) (Suc 0)"
    by (simp add: last_page_def page_ends_def example_provider_def two_pages_def)
  have l2: "last_page (example_provider gap_pages one_gone) (make_query None None) (Suc 0)"
    by (simp add: last_page_def page_ends_def example_provider_def gap_pages_def)
  have l3: "fst (list_page (example_provider no_pages one_gone) (make_query (Some ''paused'') None) 0) = []"
    by (simp add: example_provider_def no_pages_def)
  have up: "[0..<Suc (Suc 0)] = [0, Suc 0]" by (simp add: upt_conv_Cons)
  have p1: "pages_upto (example_provider two_pages one_gone) None 0 (Suc 0)
      = [example_sandbox ''sbx_a'' RUNNING 6600, example_sandbox ''sbx_b'' PAUSED 3600,
         example_sandbox ''sbx_c'' RUNNING 6600]"
    unfolding pages_upto_def up by (simp add: example_provider_def two_pages_def)
  have p2: "pages_upto (example_provider gap_pages one_gone) None 0 (Suc 0)
      = [example_sandbox ''sbx_a'' RUNNING 6600]"
    unfolding pages_upto_def up by (simp add: example_provider_def gap_pages_def)
  have c: "calls (example_provider pages kills) = []" for pages kills
    by (simp add: example_provider_def)
  from list_sandboxes_exhausts [of "example_provider two_pages one_gone" None None "Suc 0"] l1
  have r1: "list_sandboxes (example_provider two_pages one_gone) None None
     = Some ([to_info (example_sandbox ''sbx_a'' RUNNING 6600),
              to_info (example_sandbox ''sbx_b'' PAUSED 3600),
              to_info (example_sandbox ''sbx_c'' RUNNING 6600)],
             (example_provider two_pages one_gone)
               \<lparr>calls := [NextItems None 0, NextItems None (Suc 0)]\<rparr>)"
    unfolding up by (simp add: q p1 c)
  from list_sandboxes_exhausts [of "example_provider gap_pages one_gone" None None "Suc 0"] l2
  have r2: "list_sandboxes (example_provider gap_pages one_gone) None None
     = Some ([to_info (example_sandbox ''sbx_a'' RUNNING 6600)],
             (example_provider gap_pages one_gone)
               \<lparr>calls := [NextItems None 0, NextItems None (Suc 0)]\<rparr>)"
    unfolding up by (simp add: q p2 c)
  from list_sandboxes_exhausts [of "example_provider no_pages one_gone" "Some ''paused''" None 0] l3
  have r3: "list_sandboxes (example_provider no_pages one_gone) (Some ''paused'') None
     = Some ([], (example_provider no_pages one_gone)
               \<lparr>calls := [NextItems (Some \<lparr>query_state = Some [PAUSED], query_metadata = None\<rparr>) 0]\<rparr>)"
    by (simp add: q c)
  from l1 r1 l2 r2 l3 r3 show ?thesis by blast
qed




text \<open>
  Claim C7. In every Summary that \<open>summary\<close> produces, the running and the paused count
  add up to the total count: every listed sandbox is in exactly one of the two states.
\<close>

theorem summary_partitions:
  assumes "summary w now1 now2 = Some (s, w')"
  shows "running_count s + paused_count s = total_count s
       \<and> (\<exists>sbxs. list_sandboxes w None None = Some (sbxs, w')
             \<and> running_count s = int (length (filter (\<lambda>x. state x = ''running'') sbxs))
             \<and> paused_count s = int (length (filter (\<lambda>x. state x = ''paused'') sbxs))
             \<and> total_count s = int (length sbxs)
             \<and> (\<forall>x\<in>set sbxs. (state x = ''running'') \<noteq> (state x = ''paused'')))"
proof -
  obtain sbxs where l: "list_sandboxes w None None = Some (sbxs, w')"
    and s: "s = summarize sbxs now1 now2"
    using assms by (auto simp: summary_def split: option.splits)
  have st: "\<forall>x\<in>set sbxs. state x = ''running'' \<or> state x = ''paused''"
    using l by (rule list_sandboxes_states)
  then have one: "\<forall>x\<in>set sbxs. (state x = ''running'') \<noteq> (state x = ''paused'')"
    by auto
  have "running_count s + paused_count s = total_count s"
    using partition_count [OF st] by (simp add: s summarize_def Let_def)
  moreover have "running_count s = int (length (filter (\<lambda>x. state x = ''running'') sbxs))"
    "paused_count s = int (length (filter (\<lambda>x. state x = ''paused'') sbxs))"
    "total_count s = int (length sbxs)"
    by (simp_all add: s summarize_def Let_def)
  ultimately show ?thesis using l one by blast
qed

theorem summary_partitions_witness:
  "summary (example_provider one_page one_gone) 7200 7201
   = Some (summarize (map to_info (fst (one_page 0))) 7200 7201,
           (example_provider one_page one_gone)\<lparr>calls := [NextItems None 0]\<rparr>)
   \<and> running_count (summarize (map to_info (fst (one_page 0))) 7200 7201) = 2
   \<and> paused_count (summarize (map to_info (fst (one_page 0))) 7200 7201) = 1
   \<and> total_count (summarize (map to_info (fst (one_page 0))) 7200 7201) = 3"
proof -
  have r: "running_count (summarize (map to_info (fst (one_page 0))) 7200 7201) = 2"
    by (simp add: summarize_def Let_def one_page_def to_info_def example_sandbox_def)
  have t: "total_count (summarize (map to_info (fst (one_page 0))) 7200 7201) = 3"
    by (simp add: summarize_def Let_def one_page_def)
  from summary_partitions [OF one_page_summary [of one_gone]] r t
  have "paused_count (summarize (map to_info (fst (one_page 0))) 7200 7201) = 1"
    by simp
  then show ?thesis using r t one_page_summary [of one_gone] by simp
qed

text \<open>
  Claim C8. For a non-empty listing the oldest sandbox is the first one with the least
  \<open>started_at\<close> and the newest is the first one with the greatest \<open>started_at\<close>; for
  an empty listing the four identity and uptime fields are null. \<open>summary\<close> only adds
  up and compares, so it returns a Summary for every listing, the empty one included.
\<close>

theorem summary_extremes:
  assumes "list_sandboxes w None None = Some (sbxs, w')"
  shows "\<exists>s. summary w now1 now2 = Some (s, w')
     \<and> total_cpu s = sum_list (map SandboxInfo.cpu_count sbxs)
     \<and> total_memory_mb s = sum_list (map memory_mb sbxs)
     \<and> (sbxs = [] \<longrightarrow>
           oldest_sandbox_id s = None \<and> oldest_uptime s = None
           \<and> newest_sandbox_id s = None \<and> newest_uptime s = None)
     \<and> (sbxs \<noteq> [] \<longrightarrow>
           (\<exists>i<length sbxs.
               oldest_sandbox_id s = Some (sandbox_id (sbxs ! i))
               \<and> oldest_uptime s = Some (now1 - started_at (sbxs ! i))
               \<and> (\<forall>j<length sbxs. started_at (sbxs ! i) \<le> started_at (sbxs ! j))
               \<and> (\<forall>j<i. started_at (sbxs ! i) < started_at (sbxs ! j)))
           \<and> (\<exists>i<length sbxs.
               newest_sandbox_id s = Some (sandbox_id (sbxs ! i))
               \<and> newest_uptime s = Some (now2 - started_at (sbxs ! i))
               \<and> (\<forall>j<length sbxs. started_at (sbxs ! j) \<le> started_at (sbxs ! i))
               \<and> (\<forall>j<i. started_at (sbxs ! j) < started_at (sbxs ! i))))"
proof -
  let ?s = "summarize sbxs now1 now2"
  have run: "summary w now1 now2 = Some (?s, w')"
    using assms by (simp add: summary_def)
  have sums: "total_cpu ?s = sum_list (map SandboxInfo.cpu_count sbxs)"
    "total_memory_mb ?s = sum_list (map memory_mb sbxs)"
    by (simp_all add: summarize_def Let_def)
  have empty: "oldest_sandbox_id ?s = None \<and> oldest_uptime ?s = None
           \<and> newest_sandbox_id ?s = None \<and> newest_uptime ?s = None" if "sbxs = []"
    using that by (simp add: summarize_def Let_def)
  have oldest: "\<exists>i<length sbxs.
               oldest_sandbox_id ?s = Some (sandbox_id (sbxs ! i))
               \<and> oldest_uptime ?s = Some (now1 - started_at (sbxs ! i))
               \<and> (\<forall>j<length sbxs. started_at (sbxs ! i) \<le> started_at (sbxs ! j))
               \<and> (\<forall>j<i. started_at (sbxs ! i) < started_at (sbxs ! j))" if ne: "sbxs \<noteq> []"
  proof -
    obtain i where "i < length sbxs" "py_min started_at sbxs = Some (sbxs ! i)"
      "\<forall>j<length sbxs. started_at (sbxs ! i) \<le> started_at (sbxs ! j)"
      "\<forall>j<i. started_at (sbxs ! i) < started_at (sbxs ! j)"
      using py_min_first [OF ne, of started_at] by blast
    then show ?thesis
      using ne by (intro exI [of _ i]) (simp add: summarize_def Let_def uptime_def)
  qed
  have newest: "\<exists>i<length sbxs.
               newest_sandbox_id ?s = Some (sandbox_id (sbxs ! i))
               \<and> newest_uptime ?s = Some (now2 - started_at (sbxs ! i))
               \<and> (\<forall>j<length sbxs. started_at (sbxs ! j) \<le> started_at (sbxs ! i))
               \<and> (\<forall>j<i. started_at (sbxs ! j) < started_at (sbxs ! i))" if ne: "sbxs \<noteq> []"
  proof -
    obtain i where "i < length sbxs" "py_max started_at sbxs = Some (sbxs ! i)"
      "\<forall>j<length sbxs. started_at (sbxs ! j) \<le> started_at (sbxs ! i)"
      "\<forall>j<i. started_at (sbxs ! j) < started_at (sbxs ! i)"
      using py_max_first [OF ne, of started_at] by blast
    then show ?thesis
      using ne by (intro exI [of _ i]) (simp add: summarize_def Let_def uptime_def)
  qed
  show ?thesis
    using run sums empty oldest newest by (intro exI [of _ ?s]) blast
qed

theorem summary_extremes_witness:
  "(\<exists>s. summary (example_provider one_page one_gone) 7200 7201
        = Some (s, (example_provider one_page one_gone)\<lparr>calls := [NextItems None 0]\<rparr>)
      \<and> oldest_sandbox_id s = Some ''sbx_b'' \<and> oldest_uptime s = Some 3600
      \<and> newest_sandbox_id s = Some ''sbx_a'' \<and> newest_uptime s = Some 601)
   \<and> (\<exists>s. summary (example_provider no_pages one_gone) 7200 7201
        = Some (s, (example_provider no_pages one_gone)\<lparr>calls := [NextItems None 0]\<rparr>)
      \<and> oldest_sandbox_id s = None \<and> oldest_uptime s = None
      \<and> newest_sandbox_id s = None \<and> newest_uptime s = None
      \<and> total_cpu s = 0 \<and> total_memory_mb s = 0)"
proof -
  let ?w1 = "example_provider one_page one_gone"
  let ?w0 = "example_provider no_pages one_gone"
  have ev: "summarize (map to_info (fst (one_page 0))) 7200 7201
      = \<lparr>running_count = 2, paused_count = 1, total_count = 3, total_cpu = 6,
         total_memory_mb = 1536, oldest_sandbox_id = Some ''sbx_b'', oldest_uptime = Some 3600,
         newest_sandbox_id = Some ''sbx_a'', newest_uptime = Some 601\<rparr>"
    by (simp add: summarize_def Let_def one_page_def to_info_def example_sandbox_def py_min_def
        py_max_def uptime_def)
  obtain s1 where s1: "summary ?w1 7200 7201 = Some (s1, ?w1\<lparr>calls := [NextItems None 0]\<rparr>)"
    using summary_extremes [OF one_page_listing [of one_gone], of 7200 7201] by blast
  then have "s1 = summarize (map to_info (fst (one_page 0))) 7200 7201"
    by (simp add: one_page_summary)
  then have first: "oldest_sandbox_id s1 = Some ''sbx_b'' \<and> oldest_uptime s1 = Some 3600
      \<and> newest_sandbox_id s1 = Some ''sbx_a'' \<and> newest_uptime s1 = Some 601"
    by (simp add: ev)
  obtain s0 where s0: "summary ?w0 7200 7201 = Some (s0, ?w0\<lparr>calls := [NextItems None 0]\<rparr>)"
    and sums: "total_cpu s0 = sum_list (map SandboxInfo.cpu_count [])"
      "total_memory_mb s0 = sum_list (map memory_mb [])"
    and none: "oldest_sandbox_id s0 = None \<and> oldest_uptime s0 = None
           \<and> newest_sandbox_id s0 = None \<and> newest_uptime s0 = None"
    using summary_extremes [OF no_pages_listing [of one_gone], of 7200 7201] by auto
  from s1 first s0 sums none show ?thesis by simp
qed

text \<open>
  Claim C9. For every SandboxInfo and every clock reading, \<open>time_remaining\<close> is the
  larger of \<open>end_at - now\<close> and zero, so it is never negative, also when \<open>end_at\<close>
  lies in the past.
\<close>

theorem time_remaining_nonneg:
  "time_remaining self now = max (end_at self - now) 0
   \<and> 0 \<le> time_remaining self now
   \<and> (end_at self < now \<longrightarrow> time_remaining self now = 0)"
  by (simp add: time_remaining_def py_max2_def Let_def max_def)

theorem time_remaining_nonneg_witness:
  "time_remaining \<lparr>sandbox_id = ''sbx_a'', template_id = ''base'', name = None,
       metadata = [], state = ''running'', started_at = 100, end_at = 500,
       SandboxInfo.cpu_count = 2, memory_mb = 512\<rparr> 900 = max (500 - 900) 0
   \<and> (0::int) \<le> time_remaining \<lparr>sandbox_id = ''sbx_a'', template_id = ''base'', name = None,
       metadata = [], state = ''running'', started_at = 100, end_at = 500,
       SandboxInfo.cpu_count = 2, memory_mb = 512\<rparr> 900
   \<and> (500::int) < 900
   \<and> time_remaining \<lparr>sandbox_id = ''sbx_a'', template_id = ''base'', name = None,
       metadata = [], state = ''running'', started_at = 100, end_at = 500,
       SandboxInfo.cpu_count = 2, memory_mb = 512\<rparr> 900 = 0"
  using time_remaining_nonneg [of "\<lparr>sandbox_id = ''sbx_a'', template_id = ''base'', name = None,
       metadata = [], state = ''running'', started_at = 100, end_at = 500,
       SandboxInfo.cpu_count = 2, memory_mb = 512\<rparr>" 900]
  by simp

text \<open>
  Claim C10. When the connection succeeds, \<open>exec\<close> and \<open>python\<close> forward the caller's
  timeout if it is not \<open>None\<close> and not 0, and the configured \<open>default_timeout\<close>
  otherwise; a timeout of 0 is replaced by the default.
\<close>

theorem timeout_forwarded:
  assumes "connect_response w sid = None"
  shows "(\<forall>t. timeout = Some t \<and> t \<noteq> 0 \<longrightarrow>
            calls (snd (exec self w sid command timeout))
              = calls w @ [Connect sid, RunCommand sid command t]
            \<and> calls (snd (python self w sid code timeout))
              = calls w @ [Connect sid, RunCode sid code ''python'' t])
       \<and> (timeout = None \<or> timeout = Some 0 \<longrightarrow>
            calls (snd (exec self w sid command timeout))
              = calls w @ [Connect sid, RunCommand sid command (default_timeout self)]
            \<and> calls (snd (python self w sid code timeout))
              = calls w @ [Connect sid, RunCode sid code ''python'' (default_timeout self)])"
  using assms
  by (auto simp: exec_def python_def Let_def timeout_or_def split: sum.splits)

theorem timeout_forwarded_witness:
  "calls (snd (exec \<lparr>api_key = ''key'', default_timeout = 60\<rparr>
                 (example_provider one_page one_gone) ''sbx_a'' ''ls'' (Some 5)))
     = [Connect ''sbx_a'', RunCommand ''sbx_a'' ''ls'' 5]
   \<and> calls (snd (python \<lparr>api_key = ''key'', default_timeout = 60\<rparr>
                 (example_provider one_page one_gone) ''sbx_a'' ''2+2'' (Some 5)))
     = [Connect ''sbx_a'', RunCode ''sbx_a'' ''2+2'' ''python'' 5]
   \<and> calls (snd (exec \<lparr>api_key = ''key'', default_timeout = 60\<rparr>
                 (example_provider one_page one_gone) ''sbx_a'' ''ls'' (Some 0)))
     = [Connect ''sbx_a'', RunCommand ''sbx_a'' ''ls'' 60]
   \<and> calls (snd (python \<lparr>api_key = ''key'', default_timeout = 60\<rparr>
                 (example_provider one_page one_gone) ''sbx_a'' ''2+2'' None))
     = [Connect ''sbx_a'', RunCode ''sbx_a'' ''2+2'' ''python'' 60]"
proof -
  let ?w = "example_provider one_page one_gone"
  let ?i = "\<lparr>api_key = ''key'', default_timeout = 60\<rparr>"
  have c: "connect_response ?w ''sbx_a'' = None" and e: "calls ?w = []"
    by (simp_all add: example_provider_def)
  from timeout_forwarded [OF c, of "Some 5" ?i "''ls''" "''2+2''"]
    timeout_forwarded [OF c, of "Some 0" ?i "''ls''" "''2+2''"]
    timeout_forwarded [OF c, of None ?i "''ls''" "''2+2''"]
  show ?thesis by (simp add: e)
qed

end
